theory Spec2Isabelle
  imports Main "HOL-Library.AList"
begin

section \<open>Data model\<close>

text \<open>
  Modelled from the spec: the records of \<^verbatim>\<open>internal/meta\<close>, with the fields that
  \<^verbatim>\<open>cmd/av/branch.go\<close> reads and writes: \<^verbatim>\<open>meta.BranchState{Name, Trunk, Head}\<close>,
  \<^verbatim>\<open>meta.Branch{Name, Parent, PullRequest}\<close> and the \<^verbatim>\<open>Number\<close> of a pull request.
  Go's nil pointer is \<open>None\<close>, the empty string is the empty list.
\<close>

record BranchState =
  StName :: string
  Trunk :: bool
  Head :: string

record PullRequest =
  Number :: int

record Branch =
  Name :: string
  Parent :: BranchState
  PullRequest :: "PullRequest option"

text \<open>
  The errors that the two operations return: the values of \<^verbatim>\<open>errors.New\<close> and
  \<^verbatim>\<open>errors.Errorf\<close>, an error wrapped with a message by \<^verbatim>\<open>errors.WrapIf\<close> or
  \<^verbatim>\<open>errors.WrapIff\<close>, \<^verbatim>\<open>errParentNotAdopted\<close>, \<^verbatim>\<open>actions.ErrExitSilently\<close> with its
  exit code, and the errors of the repository and of a commit.
\<close>

datatype error =
    New string
  | Wrap error string
  | errParentNotAdopted
  | ErrExitSilently int
  | GitError string
  | CommitError

section \<open>The metadata store\<close>

text \<open>
  Modelled from the spec: the metadata store \<^verbatim>\<open>meta.DB\<close> of \<^verbatim>\<open>internal/meta\<close>, which
  \<^verbatim>\<open>cmd/av/branch.go\<close> only calls. A key-value store of branch records, keyed by branch
  name. Whether a commit fails is an input: the field \<open>CommitFails\<close> of the database.
\<close>

type_synonym store = "(string \<times> Branch) list"

record DB =
  Branches :: store
  CommitFails :: bool

text \<open>
  Modelled from the spec: the write transaction that \<^verbatim>\<open>db.WriteTx()\<close> opens. It works
  on a private copy of the committed records, so that staged writes are seen by the
  transaction only, and it is open, committed or aborted.
\<close>

datatype TxStatus = Open | Committed | Aborted

record WriteTx =
  state :: store
  status :: TxStatus

definition WriteTx :: "DB \<Rightarrow> WriteTx" where
  "WriteTx db = \<lparr>state = Branches db, status = Open\<rparr>"

text \<open>
  Modelled from the spec: \<^verbatim>\<open>tx.Branch(name)\<close>, the \<open>get\<close> of the transaction. It
  returns the record and whether there is one; with none, the record is Go's zero value.
\<close>

definition zeroBranch :: Branch where
  "zeroBranch = \<lparr>Name = [], Parent = \<lparr>StName = [], Trunk = False, Head = []\<rparr>,
                 PullRequest = None\<rparr>"

definition Branch :: "WriteTx \<Rightarrow> string \<Rightarrow> Branch \<times> bool" where
  "Branch tx name =
     (case map_of (state tx) name of
        Some b \<Rightarrow> (b, True)
      | None \<Rightarrow> (zeroBranch, False))"

text \<open>
  Modelled from the spec: \<^verbatim>\<open>tx.SetBranch\<close> and \<^verbatim>\<open>tx.DeleteBranch\<close>, the \<open>set\<close> and
  \<open>delete\<close> of the transaction. A record is staged under the name it carries.
\<close>

definition SetBranch :: "Branch \<Rightarrow> WriteTx \<Rightarrow> WriteTx" where
  "SetBranch b tx = tx\<lparr>state := AList.update (Name b) b (state tx)\<rparr>"

definition DeleteBranch :: "string \<Rightarrow> WriteTx \<Rightarrow> WriteTx" where
  "DeleteBranch name tx = tx\<lparr>state := AList.delete name (state tx)\<rparr>"

text \<open>
  Modelled from the spec: \<^verbatim>\<open>meta.Children\<close>, the \<open>childrenOf\<close> of the transaction:
  the records whose parent name is the given one, computed over the records that the
  transaction sees at the time of the call, staged writes included.
\<close>

definition AllBranches :: "WriteTx \<Rightarrow> Branch list" where
  "AllBranches tx = map snd (state tx)"

definition Children :: "WriteTx \<Rightarrow> string \<Rightarrow> Branch list" where
  "Children tx name = filter (\<lambda>b. StName (Parent b) = name) (AllBranches tx)"

text \<open>
  Modelled from the spec: \<^verbatim>\<open>tx.Abort()\<close> discards the staged writes; \<^verbatim>\<open>tx.Commit()\<close>
  makes the staged records the committed ones, or returns an error and leaves the
  committed records as they are.
\<close>

definition Abort :: "WriteTx \<Rightarrow> WriteTx" where
  "Abort tx = tx\<lparr>status := Aborted\<rparr>"

definition Commit :: "WriteTx \<Rightarrow> DB \<Rightarrow> error option \<times> WriteTx \<times> DB" where
  "Commit tx db =
     (if CommitFails db then (Some CommitError, tx, db)
      else (None, tx\<lparr>status := Committed\<rparr>, db\<lparr>Branches := state tx\<rparr>))"

section \<open>The version-control repository\<close>

text \<open>
  Modelled from the spec: the repository \<^verbatim>\<open>git.Repo\<close> of \<^verbatim>\<open>internal/git\<close>, which
  \<^verbatim>\<open>cmd/av/branch.go\<close> only calls. A repository has local branches with the commit each
  points to (\<open>heads\<close>), remote-tracking refs such as \<^verbatim>\<open>origin/main\<close> (\<open>remotes\<close>) and
  the branch that is checked out. What \<^verbatim>\<open>DefaultBranch\<close>, \<^verbatim>\<open>GetRemoteName\<close>,
  \<^verbatim>\<open>IsTrunkBranch\<close> and \<^verbatim>\<open>CurrentBranchName\<close> answer is a field of the repository, an
  error included.
\<close>

record Repo =
  DefaultBranch :: "error + string"
  GetRemoteName :: string
  IsTrunkBranch :: "string \<Rightarrow> error + bool"
  CurrentBranchName :: "error + string"
  heads :: "string \<rightharpoonup> string"
  remotes :: "string \<rightharpoonup> string"

text \<open>
  Modelled from the spec: \<^verbatim>\<open>repo.RevParse\<close> resolves the name of a local branch or of
  a remote-tracking ref to its commit, and fails on any other name;
  \<^verbatim>\<open>repo.DoesBranchExist\<close> tells whether a local branch has the name.
\<close>

definition RevParse :: "Repo \<Rightarrow> string \<Rightarrow> error + string" where
  "RevParse repo r =
     (case heads repo r of
        Some c \<Rightarrow> Inr c
      | None \<Rightarrow>
          (case remotes repo r of
             Some c \<Rightarrow> Inr c
           | None \<Rightarrow> Inl (GitError ''rev-parse'')))"

definition DoesBranchExist :: "Repo \<Rightarrow> string \<Rightarrow> error + bool" where
  "DoesBranchExist repo name = Inr (heads repo name \<noteq> None)"

text \<open>
  Modelled from the spec: \<^verbatim>\<open>repo.CheckoutBranch\<close> with \<^verbatim>\<open>NewBranch: true\<close>, that is
  \<^verbatim>\<open>git checkout -b\<close>. It fails when the branch exists, otherwise it creates the branch
  at the given commit and checks it out.
\<close>

definition CheckoutNewBranch :: "string \<Rightarrow> string \<Rightarrow> Repo \<Rightarrow> error + Repo" where
  "CheckoutNewBranch name newHeadRef repo =
     (if heads repo name \<noteq> None then Inl (GitError ''checkout'')
      else Inr (repo\<lparr>CurrentBranchName := Inr name,
                     heads := (heads repo)(name \<mapsto> newHeadRef)\<rparr>))"

text \<open>
  Modelled from the spec: \<^verbatim>\<open>repo.CheckoutBranch\<close> with a name only checks out a local
  branch that exists.
\<close>

definition CheckoutBranch :: "string \<Rightarrow> Repo \<Rightarrow> error + Repo" where
  "CheckoutBranch name repo =
     (if heads repo name = None then Inl (GitError ''checkout'')
      else Inr (repo\<lparr>CurrentBranchName := Inr name\<rparr>))"

text \<open>
  Modelled from the spec: \<^verbatim>\<open>repo.BranchDelete\<close> deletes a local branch; it refuses one
  that is missing or checked out.
\<close>

definition BranchDelete :: "string \<Rightarrow> Repo \<Rightarrow> error + Repo" where
  "BranchDelete name repo =
     (if heads repo name = None \<or> CurrentBranchName repo = Inr name
      then Inl (GitError ''branch -D'')
      else Inr (repo\<lparr>heads := (heads repo)(name := None)\<rparr>))"

text \<open>
  Modelled from the spec: \<^verbatim>\<open>repo.Run\<close> hands its arguments to git. The one command
  line that \<^verbatim>\<open>cmd/av/branch.go\<close> issues is \<^verbatim>\<open>git branch -m <name>\<close>, which renames the
  branch that is checked out; it fails when no branch is checked out or when another
  branch has the name.
\<close>

fun Run :: "string list \<Rightarrow> Repo \<Rightarrow> error + Repo" where
  "Run [cmd, opt, name] repo =
     (if cmd = ''branch'' \<and> opt = ''-m'' then
        (case CurrentBranchName repo of
           Inl err \<Rightarrow> Inl err
         | Inr cur \<Rightarrow>
             if name = cur then Inr repo
             else if heads repo name \<noteq> None \<or> heads repo cur = None
             then Inl (GitError ''branch -m'')
             else Inr (repo\<lparr>CurrentBranchName := Inr name,
                            heads := (heads repo)(cur := None, name := heads repo cur)\<rparr>))
      else Inl (GitError ''run''))"
| "Run args repo = Inl (GitError ''run'')"

section \<open>Strings\<close>

text \<open>
  The functions of Go's \<^verbatim>\<open>strings\<close> package that the file calls, for a separator of
  one character: \<^verbatim>\<open>Count\<close>, \<^verbatim>\<open>ContainsRune\<close>, \<^verbatim>\<open>Cut\<close> (the text before the first
  separator, the text after it, and whether there is one) and \<^verbatim>\<open>TrimPrefix\<close>.
\<close>

definition Count :: "string \<Rightarrow> char \<Rightarrow> nat" where
  "Count s c = length (filter (\<lambda>x. x = c) s)"

definition ContainsRune :: "string \<Rightarrow> char \<Rightarrow> bool" where
  "ContainsRune s c = (c \<in> set s)"

definition Cut :: "string \<Rightarrow> char \<Rightarrow> string \<times> string \<times> bool" where
  "Cut s c =
     (if c \<in> set s
      then (takeWhile (\<lambda>x. x \<noteq> c) s, tl (dropWhile (\<lambda>x. x \<noteq> c) s), True)
      else (s, [], False))"

definition TrimPrefix :: "string \<Rightarrow> string \<Rightarrow> string" where
  "TrimPrefix s p = (if take (length p) s = p then drop (length p) s else s)"

definition quote :: "string \<Rightarrow> string" where
  "quote s = CHR 0x22 # s @ [CHR 0x22]"

section \<open>The compensation stack\<close>

text \<open>
  What an operation can change, and so what a compensation works on: the repository,
  the committed store and the transaction of the operation, once there is one.
\<close>

record World =
  wRepo :: Repo
  wDB :: DB
  wTx :: "WriteTx option"

text \<open>
  Modelled from the spec: the stack \<^verbatim>\<open>cleanup.Cleanup\<close> of
  \<^verbatim>\<open>internal/utils/cleanup\<close>, which \<^verbatim>\<open>cmd/av/branch.go\<close> only calls. \<^verbatim>\<open>New\<close> and
  \<^verbatim>\<open>Add\<close> register an action, \<^verbatim>\<open>Cancel\<close> drops all that is registered without running
  it, \<^verbatim>\<open>Cleanup\<close> runs what is registered, last first.
\<close>

type_synonym Cleanup = "(World \<Rightarrow> World) list"

definition NewCleanup :: "(World \<Rightarrow> World) \<Rightarrow> Cleanup" where
  "NewCleanup fn = [fn]"

definition Add :: "(World \<Rightarrow> World) \<Rightarrow> Cleanup \<Rightarrow> Cleanup" where
  "Add fn cu = cu @ [fn]"

definition Cancel :: "Cleanup \<Rightarrow> Cleanup" where
  "Cancel cu = []"

definition Cleanup :: "Cleanup \<Rightarrow> World \<Rightarrow> World" where
  "Cleanup cu w = fold (\<lambda>fn. fn) (rev cu) w"

text \<open>
  Both operations run \<^verbatim>\<open>defer cu.Cleanup()\<close>: the body hands back its error, the
  world and the stack, and the stack then runs.
\<close>

definition deferred :: "error option \<times> World \<times> Cleanup \<Rightarrow> error option \<times> World" where
  "deferred r = (case r of (reterr, w, cu) \<Rightarrow> (reterr, Cleanup cu w))"

text \<open>The action that both operations register first: \<^verbatim>\<open>tx.Abort()\<close>.\<close>

definition abortTx :: "World \<Rightarrow> World" where
  "abortTx w = w\<lparr>wTx := map_option Abort (wTx w)\<rparr>"

section \<open>Adopt: \<^verbatim>\<open>createBranch\<close>\<close>

text \<open>
  The action that \<^verbatim>\<open>createBranch\<close> registers after the checkout (lines 185 to 200):
  check out the parent branch, delete the new branch; a failure of either is logged and
  ignored.
\<close>

definition branchCleanup :: "string \<Rightarrow> string \<Rightarrow> World \<Rightarrow> World" where
  "branchCleanup branchName parentBranchName w =
     (let repo1 = (case CheckoutBranch parentBranchName (wRepo w) of
                     Inl err \<Rightarrow> wRepo w
                   | Inr r \<Rightarrow> r);
          repo2 = (case BranchDelete branchName repo1 of
                     Inl err \<Rightarrow> repo1
                   | Inr r \<Rightarrow> r)
      in w\<lparr>wRepo := repo2\<rparr>)"

text \<open>
  The parent as \<^verbatim>\<open>createBranch\<close> resolves it (lines 113 to 125): the branch checked
  out when none is given, the default branch for \<^verbatim>\<open><remote>/HEAD\<close>, and without the
  prefix \<^verbatim>\<open><remote>/\<close>.
\<close>

definition resolveParent :: "Repo \<Rightarrow> string \<Rightarrow> string \<Rightarrow> error + string" where
  "resolveParent repo defaultBranch parentBranchName =
     (case (if parentBranchName = [] then CurrentBranchName repo else Inr parentBranchName) of
        Inl err \<Rightarrow> Inl (Wrap err ''failed to get current branch name'')
      | Inr parent1 \<Rightarrow>
          (let remoteName = GetRemoteName repo;
               parent2 = (if parent1 = remoteName @ ''/HEAD'' then defaultBranch else parent1)
           in Inr (TrimPrefix parent2 (remoteName @ ''/''))))"

text \<open>
  The starting point of the checkout and the head commit recorded for the parent (lines
  131 to 152): the remote-tracking ref of the default branch and no commit under a
  trunk; the parent itself and its commit otherwise, where the parent has to resolve and
  then to have a record. The message of the wrapped error quotes \<^verbatim>\<open>parentHead\<close>, which
  is empty there.
\<close>

definition startingPoint ::
  "Repo \<Rightarrow> WriteTx \<Rightarrow> string \<Rightarrow> string \<Rightarrow> bool \<Rightarrow> error + string \<times> string" where
  "startingPoint repo tx defaultBranch parentBranchName isBranchFromTrunk =
     (if isBranchFromTrunk
      then Inr (GetRemoteName repo @ ''/'' @ defaultBranch, [])
      else
        (case RevParse repo parentBranchName of
           Inl err \<Rightarrow>
             Inl (Wrap err (''failed to determine head commit of branch '' @ quote []))
         | Inr parentHead \<Rightarrow>
             if \<not> snd (Branch tx parentBranchName) then Inl errParentNotAdopted
             else Inr (parentBranchName, parentHead)))"

text \<open>
  The body of \<^verbatim>\<open>createBranch\<close> once the transaction is open (lines 112 to 215): every
  \<^verbatim>\<open>return\<close> hands back the error, the world as it is then and the stack as it is then.
  What is printed and logged is left out.
\<close>

definition createBranchTx ::
  "Repo \<Rightarrow> DB \<Rightarrow> WriteTx \<Rightarrow> Cleanup \<Rightarrow> string \<Rightarrow> string \<Rightarrow> string
     \<Rightarrow> error option \<times> World \<times> Cleanup" where
  "createBranchTx repo db tx cu defaultBranch branchName parentBranchName0 =
     (let w = \<lparr>wRepo = repo, wDB = db, wTx = Some tx\<rparr> in
      case resolveParent repo defaultBranch parentBranchName0 of
        Inl err \<Rightarrow> (Some err, w, cu)
      | Inr parentBranchName \<Rightarrow>
      (case IsTrunkBranch repo parentBranchName of
        Inl err \<Rightarrow> (Some (Wrap err ''failed to determine if branch is a trunk''), w, cu)
      | Inr isBranchFromTrunk \<Rightarrow>
      (case startingPoint repo tx defaultBranch parentBranchName isBranchFromTrunk of
        Inl err \<Rightarrow> (Some err, w, cu)
      | Inr (checkoutStartingPoint, parentHead) \<Rightarrow>
      (case RevParse repo checkoutStartingPoint of
        Inl err \<Rightarrow>
          (Some (Wrap err ''failed to determine commit hash of starting point''), w, cu)
      | Inr startPointCommitHash \<Rightarrow>
      (case CheckoutNewBranch branchName startPointCommitHash repo of
        Inl err \<Rightarrow> (Some (Wrap err ''checkout error''), w, cu)
      | Inr repo1 \<Rightarrow>
          (let cu1 = Add (branchCleanup branchName parentBranchName) cu;
               tx1 = SetBranch
                       \<lparr>Name = branchName,
                        Parent = \<lparr>StName = parentBranchName, Trunk = isBranchFromTrunk,
                                  Head = parentHead\<rparr>,
                        PullRequest = None\<rparr> tx;
               cu2 = Cancel cu1
           in case Commit tx1 db of
                (reterr, tx2, db2) \<Rightarrow>
                  (reterr, \<lparr>wRepo = repo1, wDB = db2, wTx = Some tx2\<rparr>, cu2)))))))"

text \<open>
  \<^verbatim>\<open>createBranch\<close> (lines 92 to 110): without a default branch it returns before a
  transaction is opened; otherwise it opens one, registers its abort and defers the
  cleanup.
\<close>

definition createBranch :: "Repo \<Rightarrow> DB \<Rightarrow> string \<Rightarrow> string \<Rightarrow> error option \<times> World" where
  "createBranch repo db branchName parentBranchName =
     (case DefaultBranch repo of
        Inl err \<Rightarrow>
          (Some (Wrap err ''failed to determine repository default branch''),
           \<lparr>wRepo = repo, wDB = db, wTx = None\<rparr>)
      | Inr defaultBranch \<Rightarrow>
          deferred (createBranchTx repo db (WriteTx db) (NewCleanup abortTx)
                      defaultBranch branchName parentBranchName))"

section \<open>Rename: \<^verbatim>\<open>branchMove\<close>\<close>

text \<open>
  The argument is \<^verbatim>\<open>NEW\<close> or \<^verbatim>\<open>OLD:NEW\<close> (lines 224 to 238): more than one
  separator is an error, and with no separator the old branch is the one checked out.
\<close>

definition moveNames :: "Repo \<Rightarrow> string \<Rightarrow> error + string \<times> string" where
  "moveNames repo newBranch =
     (if Count newBranch CHR '':'' > 1
      then Inl (New ''the branch name should be NEW_BRANCH or OLD_BRANCH:NEW_BRANCH'')
      else if ContainsRune newBranch CHR '':''
      then (case Cut newBranch CHR '':'' of (old, new, found) \<Rightarrow> Inr (old, new))
      else
        (case CurrentBranchName repo of
           Inl err \<Rightarrow> Inl err
         | Inr old \<Rightarrow> Inr (old, newBranch)))"

text \<open>
  The record of the old branch (lines 251 to 261); for a branch with no record, the
  zero record with the default branch as its trunk parent.
\<close>

definition currentMeta :: "Repo \<Rightarrow> WriteTx \<Rightarrow> string \<Rightarrow> error + Branch" where
  "currentMeta repo tx oldBranch =
     (case Branch tx oldBranch of
        (m, ok) \<Rightarrow>
          if ok then Inr m
          else
            (case DefaultBranch repo of
               Inl err \<Rightarrow> Inl (Wrap err ''failed to determine repository default branch'')
             | Inr defaultBranch \<Rightarrow>
                 Inr (m\<lparr>Parent := \<lparr>StName = defaultBranch, Trunk = True, Head = []\<rparr>\<rparr>)))"

text \<open>
  The loop over the children (lines 287 to 290): each gets the new parent name and is
  stored.
\<close>

definition setParent :: "string \<Rightarrow> Branch \<Rightarrow> Branch" where
  "setParent newBranch child = child\<lparr>Parent := (Parent child)\<lparr>StName := newBranch\<rparr>\<rparr>"

definition moveChildren :: "string \<Rightarrow> Branch list \<Rightarrow> WriteTx \<Rightarrow> WriteTx" where
  "moveChildren newBranch children tx =
     fold (\<lambda>child. SetBranch (setParent newBranch child)) children tx"

text \<open>
  The writes that \<^verbatim>\<open>branchMove\<close> stages, in its order (lines 281 to 291): the record
  with no pull request under the new name, the children read after that write, the
  deletion of the old name.
\<close>

definition stageMove :: "Branch \<Rightarrow> string \<Rightarrow> string \<Rightarrow> WriteTx \<Rightarrow> WriteTx" where
  "stageMove m oldBranch newBranch tx =
     (let tx1 = SetBranch (m\<lparr>PullRequest := None, Name := newBranch\<rparr>) tx;
          children = Children tx1 oldBranch;
          tx2 = moveChildren newBranch children tx1
      in DeleteBranch oldBranch tx2)"

text \<open>
  The rename in Git, of a branch that exists there (lines 294 to 310). The arguments of
  the command are \<^verbatim>\<open>branch\<close>, \<^verbatim>\<open>-m\<close> and the new name.
\<close>

definition renameInGit :: "Repo \<Rightarrow> string \<Rightarrow> string \<Rightarrow> error + Repo" where
  "renameInGit repo oldBranch newBranch =
     (case DoesBranchExist repo oldBranch of
        Inl err \<Rightarrow> Inl err
      | Inr ok \<Rightarrow>
          if ok then
            (case Run [''branch'', ''-m'', newBranch] repo of
               Inl err \<Rightarrow> Inl (Wrap err ''failed to rename Git branch'')
             | Inr repo1 \<Rightarrow> Inr repo1)
          else Inr repo)"

text \<open>
  The body of \<^verbatim>\<open>branchMove\<close> once the transaction is open (lines 247 to 316). What
  is printed is left out.
\<close>

definition branchMoveTx ::
  "Repo \<Rightarrow> DB \<Rightarrow> WriteTx \<Rightarrow> Cleanup \<Rightarrow> string \<Rightarrow> string \<Rightarrow> bool
     \<Rightarrow> error option \<times> World \<times> Cleanup" where
  "branchMoveTx repo db tx cu oldBranch newBranch force =
     (let w = \<lparr>wRepo = repo, wDB = db, wTx = Some tx\<rparr> in
      if oldBranch = newBranch
      then (Some (New ''cannot rename branch to itself''), w, cu)
      else
      (case currentMeta repo tx oldBranch of
        Inl err \<Rightarrow> (Some err, w, cu)
      | Inr m \<Rightarrow>
          if \<not> force \<and> PullRequest m \<noteq> None
          then (Some (ErrExitSilently 127), w, cu)
          else
          (let tx3 = stageMove m oldBranch newBranch tx in
           case renameInGit repo oldBranch newBranch of
             Inl err \<Rightarrow> (Some err, \<lparr>wRepo = repo, wDB = db, wTx = Some tx3\<rparr>, cu)
           | Inr repo1 \<Rightarrow>
               (let cu1 = Cancel cu in
                case Commit tx3 db of
                  (reterr, tx4, db1) \<Rightarrow>
                    (reterr, \<lparr>wRepo = repo1, wDB = db1, wTx = Some tx4\<rparr>, cu1)))))"

text \<open>
  \<^verbatim>\<open>branchMove\<close> (lines 218 to 245): an argument that does not give the two names
  returns before a transaction is opened; otherwise it opens one, registers its abort
  and defers the cleanup.
\<close>

definition branchMove :: "Repo \<Rightarrow> DB \<Rightarrow> string \<Rightarrow> bool \<Rightarrow> error option \<times> World" where
  "branchMove repo db newBranch0 force =
     (case moveNames repo newBranch0 of
        Inl err \<Rightarrow> (Some err, \<lparr>wRepo = repo, wDB = db, wTx = None\<rparr>)
      | Inr (oldBranch, newBranch) \<Rightarrow>
          deferred (branchMoveTx repo db (WriteTx db) (NewCleanup abortTx)
                      oldBranch newBranch force))"

section \<open>Stores keyed by name\<close>

text \<open>
  The store keeps one record per branch name, under the name that the record carries:
  \<^verbatim>\<open>SetBranch\<close> stores a record under its \<^verbatim>\<open>Name\<close>. An association list that is a
  store has distinct keys, each the name of its record.
\<close>

definition keyed :: "store \<Rightarrow> bool" where
  "keyed s = (distinct (map fst s) \<and> list_all (\<lambda>(k, b). Name b = k) s)"

text \<open>What the loop over the children of \<open>oldBranch\<close> does to one record.\<close>

definition reparent :: "string \<Rightarrow> string \<Rightarrow> Branch \<Rightarrow> Branch" where
  "reparent oldBranch newBranch c =
     (if StName (Parent c) = oldBranch then setParent newBranch c else c)"

section \<open>The forest of branches\<close>

text \<open>
  Following the parent names from a record: the walk goes on while the parent named has
  a record, and ends well when the parent named has none and is flagged as trunk. The
  number of hops is bounded; a store is a forest when the walk from every record ends
  well within as many hops as the store has records.
\<close>

fun reachesTrunk :: "nat \<Rightarrow> store \<Rightarrow> string \<Rightarrow> bool" where
  "reachesTrunk 0 s n = False"
| "reachesTrunk (Suc hops) s n =
     (case map_of s n of
        None \<Rightarrow> False
      | Some b \<Rightarrow>
          (case map_of s (StName (Parent b)) of
             None \<Rightarrow> Trunk (Parent b)
           | Some p \<Rightarrow> reachesTrunk hops s (StName (Parent b))))"

definition forest :: "store \<Rightarrow> bool" where
  "forest s = list_all (\<lambda>(k, b). reachesTrunk (length s) s k) s"

text \<open>
  A name is fresh for a store when no record has it, as its name or as the name of its
  parent. The operations that keep the forest: an adopt of a fresh name that is not the
  resolved parent, and a rename to a fresh name where, when the old branch has no record,
  the default branch has no record either and is neither of the two names.
\<close>

definition fresh :: "store \<Rightarrow> string \<Rightarrow> bool" where
  "fresh s n = (n \<notin> set (map fst s) \<and> n \<notin> set (map (\<lambda>(k, b). StName (Parent b)) s))"

definition adoptGuard :: "Repo \<Rightarrow> store \<Rightarrow> string \<Rightarrow> string \<Rightarrow> bool" where
  "adoptGuard repo s branchName parentBranchName =
     (fresh s branchName \<and>
      (case DefaultBranch repo of
         Inl err \<Rightarrow> False
       | Inr d \<Rightarrow>
           (case resolveParent repo d parentBranchName of
              Inl err \<Rightarrow> False
            | Inr p \<Rightarrow> p \<noteq> branchName)))"

definition renameGuard :: "Repo \<Rightarrow> store \<Rightarrow> string \<Rightarrow> string \<Rightarrow> bool" where
  "renameGuard repo s oldBranch newBranch =
     (fresh s newBranch \<and>
      (case map_of s oldBranch of
         Some b \<Rightarrow> True
       | None \<Rightarrow>
           (case DefaultBranch repo of
              Inl err \<Rightarrow> False
            | Inr d \<Rightarrow> map_of s d = None \<and> d \<noteq> oldBranch \<and> d \<noteq> newBranch)))"

text \<open>The stores reached from the empty one by committing such operations.\<close>

inductive reachable :: "store \<Rightarrow> bool" where
  empty: "reachable []"
| adopt: "reachable (Branches db) \<Longrightarrow> adoptGuard repo (Branches db) branchName parentBranchName \<Longrightarrow>
          createBranch repo db branchName parentBranchName = (None, w) \<Longrightarrow>
          reachable (Branches (wDB w))"
| rename: "reachable (Branches db) \<Longrightarrow> moveNames repo arg = Inr (oldBranch, newBranch) \<Longrightarrow>
          renameGuard repo (Branches db) oldBranch newBranch \<Longrightarrow>
          branchMove repo db arg force = (None, w) \<Longrightarrow>
          reachable (Branches (wDB w))"

text \<open>
  A rank for the records of a store: below the number of records, and smaller at the
  parent, when the parent has a record; a parent without a record is flagged trunk.
\<close>

definition rankedMap :: "(string \<rightharpoonup> Branch) \<Rightarrow> (string \<Rightarrow> nat) \<Rightarrow> bool" where
  "rankedMap M r =
     (\<forall>k b. M k = Some b \<longrightarrow>
        r k < card (dom M) \<and>
        (if M (StName (Parent b)) = None then Trunk (Parent b)
         else r (StName (Parent b)) < r k))"

definition inv :: "store \<Rightarrow> bool" where
  "inv s = (keyed s \<and> (\<exists>r. rankedMap (map_of s) r))"

section \<open>Example inputs\<close>

text \<open>
  A repository whose default branch \<^verbatim>\<open>main\<close> is checked out, with the remote
  \<^verbatim>\<open>origin\<close>; the same repository with two more branches, \<^verbatim>\<open>a\<close> checked out;
  a database that commits; a record with no pull request.
\<close>

definition mkBranch :: "string \<Rightarrow> string \<Rightarrow> bool \<Rightarrow> string \<Rightarrow> Branch" where
  "mkBranch n p t h =
     \<lparr>Name = n, Parent = \<lparr>StName = p, Trunk = t, Head = h\<rparr>, PullRequest = None\<rparr>"

definition exRepo :: Repo where
  "exRepo = \<lparr>DefaultBranch = Inr ''main'', GetRemoteName = ''origin'',
     IsTrunkBranch = (\<lambda>n. Inr (n = ''main'')), CurrentBranchName = Inr ''main'',
     heads = [''main'' \<mapsto> ''c0''], remotes = [''origin/main'' \<mapsto> ''c1'']\<rparr>"

definition exRepoAB :: Repo where
  "exRepoAB = exRepo\<lparr>CurrentBranchName := Inr ''a'',
     heads := [''main'' \<mapsto> ''c0'', ''a'' \<mapsto> ''c2'', ''b'' \<mapsto> ''c3'']\<rparr>"

definition exDB :: "store \<Rightarrow> DB" where
  "exDB s = \<lparr>Branches = s, CommitFails = False\<rparr>"

text \<open>
  A stack of two records, \<^verbatim>\<open>a\<close> on the trunk and \<^verbatim>\<open>b\<close> on \<^verbatim>\<open>a\<close>; the same stack
  with a pull request for \<^verbatim>\<open>a\<close>.
\<close>

definition exStack :: store where
  "exStack = [(''a'', mkBranch ''a'' ''main'' True []),
              (''b'', mkBranch ''b'' ''a'' False ''c2'')]"


text \<open>
  Four operations in a row, each on the repository and the store that the one before
  left: adopt \<^verbatim>\<open>a\<close> on the trunk, adopt \<^verbatim>\<open>b\<close> on \<^verbatim>\<open>a\<close>, rename \<^verbatim>\<open>a\<close> to \<^verbatim>\<open>c\<close>
  while \<^verbatim>\<open>b\<close> is checked out, rename \<^verbatim>\<open>b\<close> to \<^verbatim>\<open>c\<close>.
\<close>

definition exStep1 :: "error option \<times> World" where
  "exStep1 = createBranch exRepo (exDB []) ''a'' []"

definition exStep2 :: "error option \<times> World" where
  "exStep2 = createBranch (wRepo (snd exStep1)) (wDB (snd exStep1)) ''b'' []"

definition exStep3 :: "error option \<times> World" where
  "exStep3 = branchMove (wRepo (snd exStep2)) (wDB (snd exStep2)) ''a:c'' False"

definition exStep4 :: "error option \<times> World" where
  "exStep4 = branchMove (wRepo (snd exStep3)) (wDB (snd exStep3)) ''b:c'' False"

section \<open>The deferred cleanup\<close>

lemma deferred_abort:
  "deferred (reterr, \<lparr>wRepo = r, wDB = d, wTx = Some t\<rparr>, NewCleanup abortTx) =
     (reterr, \<lparr>wRepo = r, wDB = d, wTx = Some (Abort t)\<rparr>)"
  by (simp add: deferred_def Cleanup_def NewCleanup_def abortTx_def)

lemma deferred_cancel:
  "deferred (reterr, w, Cancel cu) = (reterr, w)"
  by (simp add: deferred_def Cleanup_def Cancel_def)

lemmas store_defs = WriteTx_def Branch_def SetBranch_def DeleteBranch_def AllBranches_def
  Children_def Abort_def Commit_def zeroBranch_def

lemmas git_defs = RevParse_def DoesBranchExist_def CheckoutNewBranch_def CheckoutBranch_def
  BranchDelete_def

lemmas string_defs = Count_def ContainsRune_def Cut_def TrimPrefix_def quote_def

lemmas move_defs = branchMove_def branchMoveTx_def moveNames_def currentMeta_def
  stageMove_def moveChildren_def setParent_def renameInGit_def

lemmas create_defs = createBranch_def createBranchTx_def resolveParent_def startingPoint_def
  branchCleanup_def

lemmas ex_defs = exRepo_def exRepoAB_def exDB_def mkBranch_def

section \<open>Validation of the rename argument\<close>

text \<open>
  Claim C8. A rename argument with more than one \<^verbatim>\<open>:\<close>, and a rename whose old
  name equals the new one, fails with a validation error (an \<^verbatim>\<open>errors.New\<close> value)
  before any side effect: the repository and the committed store are the ones given, and
  the transaction, if one was opened, is aborted with nothing staged.
\<close>

theorem rename_validation:
  assumes "1 < Count arg CHR '':'' \<or> moveNames repo arg = Inr (n, n)"
  shows "\<exists>msg t. branchMove repo db arg force =
           (Some (New msg), \<lparr>wRepo = repo, wDB = db, wTx = t\<rparr>) \<and>
           (t = None \<or> t = Some \<lparr>state = Branches db, status = Aborted\<rparr>)"
proof (cases "1 < Count arg CHR '':''")
  case True
  then show ?thesis by (simp add: branchMove_def moveNames_def)
next
  case False
  with assms have "moveNames repo arg = Inr (n, n)" by simp
  then show ?thesis
    by (simp add: branchMove_def branchMoveTx_def deferred_abort WriteTx_def Abort_def)
qed

theorem rename_validation_witness:
  "(1 < Count ''a:b:c'' CHR '':'' \<or> moveNames exRepo ''a:b:c'' = Inr (''a'', ''a'')) \<and>
   (\<exists>msg t. branchMove exRepo (exDB []) ''a:b:c'' False =
      (Some (New msg), \<lparr>wRepo = exRepo, wDB = exDB [], wTx = t\<rparr>) \<and>
      (t = None \<or> t = Some \<lparr>state = Branches (exDB []), status = Aborted\<rparr>)) \<and>
   (1 < Count ''main'' CHR '':'' \<or> moveNames exRepo ''main'' = Inr (''main'', ''main'')) \<and>
   (\<exists>msg t. branchMove exRepo (exDB []) ''main'' True =
      (Some (New msg), \<lparr>wRepo = exRepo, wDB = exDB [], wTx = t\<rparr>) \<and>
      (t = None \<or> t = Some \<lparr>state = Branches (exDB []), status = Aborted\<rparr>))"
proof -
  have h1: "1 < Count ''a:b:c'' CHR '':'' \<or> moveNames exRepo ''a:b:c'' = Inr (''a'', ''a'')"
    by (simp add: Count_def)
  have h2: "1 < Count ''main'' CHR '':'' \<or> moveNames exRepo ''main'' = Inr (''main'', ''main'')"
    by (simp add: moveNames_def string_defs exRepo_def)
  from rename_validation[OF h1, of "exDB []" False] rename_validation[OF h2, of "exDB []" True]
    h1 h2
  show ?thesis by blast
qed

section \<open>The rename in the repository\<close>

text \<open>
  Claim C5. A successful rename of \<^verbatim>\<open>OLD\<close> to \<^verbatim>\<open>NEW\<close> should rename the
  repository branch \<^verbatim>\<open>OLD\<close>, whichever branch is checked out. The command line that
  \<^verbatim>\<open>branchMove\<close> issues is \<^verbatim>\<open>git branch -m NEW\<close>, without the old name: with \<^verbatim>\<open>a\<close>
  checked out, the rename \<^verbatim>\<open>b:c\<close> succeeds, the record of \<^verbatim>\<open>b\<close> becomes the record of
  \<^verbatim>\<open>c\<close>, and in the repository \<^verbatim>\<open>b\<close> keeps its name while \<^verbatim>\<open>a\<close> becomes \<^verbatim>\<open>c\<close>.
\<close>

theorem rename_moves_checked_out_branch:
  "fst (branchMove exRepoAB (exDB [(''b'', mkBranch ''b'' ''main'' True [])]) ''b:c'' False)
     = None \<and>
   Branches (wDB (snd (branchMove exRepoAB (exDB [(''b'', mkBranch ''b'' ''main'' True [])])
                         ''b:c'' False)))
     = [(''c'', mkBranch ''c'' ''main'' True [])] \<and>
   map (heads exRepoAB) [''a'', ''b'', ''c''] = [Some ''c2'', Some ''c3'', None] \<and>
   map (heads (wRepo (snd (branchMove exRepoAB
                             (exDB [(''b'', mkBranch ''b'' ''main'' True [])]) ''b:c'' False))))
     [''a'', ''b'', ''c''] = [None, Some ''c3'', Some ''c2'']"
  by (simp add: move_defs store_defs git_defs string_defs deferred_cancel ex_defs)

section \<open>Failure after side effects\<close>

text \<open>
  A rename that fails leaves the committed store as it was; unless the failure is the
  commit's own, the transaction ends aborted.
\<close>

lemma rename_failure_keeps_store:
  assumes "fst (branchMove repo db arg force) \<noteq> None"
  shows "wDB (snd (branchMove repo db arg force)) = db \<and>
         (fst (branchMove repo db arg force) \<noteq> Some CommitError \<longrightarrow>
            wRepo (snd (branchMove repo db arg force)) = repo \<and>
            (case wTx (snd (branchMove repo db arg force)) of
               None \<Rightarrow> True
             | Some t \<Rightarrow> status t = Aborted))"
  using assms
  by (auto simp: branchMove_def branchMoveTx_def deferred_abort deferred_cancel Commit_def
      Abort_def Let_def split: sum.splits prod.splits if_splits)

text \<open>
  Claim C6. A rename that fails after its writes were staged leaves the committed store
  unchanged, and an adopt that fails after the checkout of the new branch should check out
  the original branch again and delete the new one. In \<^verbatim>\<open>createBranch\<close> the only step
  that can fail after the checkout is the commit, and \<^verbatim>\<open>cu.Cancel()\<close> runs before it: when
  the commit fails, the error is returned, \<^verbatim>\<open>a\<close> exists and is checked out, where
  \<^verbatim>\<open>main\<close> was checked out and \<^verbatim>\<open>a\<close> did not exist.
\<close>

theorem adopt_commit_failure_keeps_branch:
  "fst (createBranch exRepo \<lparr>Branches = [], CommitFails = True\<rparr> ''a'' []) = Some CommitError \<and>
   CurrentBranchName exRepo = Inr ''main'' \<and> heads exRepo ''a'' = None \<and>
   CurrentBranchName
     (wRepo (snd (createBranch exRepo \<lparr>Branches = [], CommitFails = True\<rparr> ''a'' [])))
     = Inr ''a'' \<and>
   heads (wRepo (snd (createBranch exRepo \<lparr>Branches = [], CommitFails = True\<rparr> ''a'' []))) ''a''
     = Some ''c1''"
  by (simp add: create_defs store_defs git_defs string_defs deferred_cancel exRepo_def)

section \<open>Adopt\<close>

text \<open>
  Claim C7. When the resolved parent is a trunk branch, the new branch is created at
  the commit that the remote-tracking ref of the default branch resolves to, and the
  staged record has a trunk parent and no head commit. The record is the one staged
  whether or not the commit then succeeds; after a successful commit it is stored.
\<close>

theorem adopt_under_trunk:
  assumes d: "DefaultBranch repo = Inr d"
    and p: "resolveParent repo d parent0 = Inr p"
    and t: "IsTrunkBranch repo p = Inr True"
    and h: "RevParse repo (GetRemoteName repo @ ''/'' @ d) = Inr h"
    and fresh: "heads repo branchName = None"
  shows "\<exists>reterr db' tx'.
      createBranch repo db branchName parent0 =
        (reterr, \<lparr>wRepo = repo\<lparr>CurrentBranchName := Inr branchName,
                                  heads := (heads repo)(branchName \<mapsto> h)\<rparr>,
                  wDB = db', wTx = Some tx'\<rparr>) \<and>
      map_of (state tx') branchName =
        Some \<lparr>Name = branchName, Parent = \<lparr>StName = p, Trunk = True, Head = []\<rparr>,
              PullRequest = None\<rparr> \<and>
      (reterr = None \<longrightarrow> Branches db' = state tx')"
  using assms
  by (cases "CommitFails db")
     (simp_all add: createBranch_def createBranchTx_def startingPoint_def CheckoutNewBranch_def
      deferred_cancel Commit_def SetBranch_def update_conv' Let_def)

theorem adopt_under_trunk_witness:
  "DefaultBranch exRepo = Inr ''main'' \<and>
   resolveParent exRepo ''main'' ''origin/HEAD'' = Inr ''main'' \<and>
   IsTrunkBranch exRepo ''main'' = Inr True \<and>
   RevParse exRepo (GetRemoteName exRepo @ ''/'' @ ''main'') = Inr ''c1'' \<and>
   heads exRepo ''a'' = None \<and>
   (\<exists>reterr db' tx'.
      createBranch exRepo (exDB []) ''a'' ''origin/HEAD'' =
        (reterr, \<lparr>wRepo = exRepo\<lparr>CurrentBranchName := Inr ''a'',
                                  heads := (heads exRepo)(''a'' \<mapsto> ''c1'')\<rparr>,
                  wDB = db', wTx = Some tx'\<rparr>) \<and>
      map_of (state tx') ''a'' =
        Some \<lparr>Name = ''a'', Parent = \<lparr>StName = ''main'', Trunk = True, Head = []\<rparr>,
              PullRequest = None\<rparr> \<and>
      (reterr = None \<longrightarrow> Branches db' = state tx'))"
proof -
  have d: "DefaultBranch exRepo = Inr ''main''" by (simp add: exRepo_def)
  have p: "resolveParent exRepo ''main'' ''origin/HEAD'' = Inr ''main''"
    by (simp add: resolveParent_def exRepo_def TrimPrefix_def)
  have t: "IsTrunkBranch exRepo ''main'' = Inr True" by (simp add: exRepo_def)
  have h: "RevParse exRepo (GetRemoteName exRepo @ ''/'' @ ''main'') = Inr ''c1''"
    by (simp add: RevParse_def exRepo_def)
  have f: "heads exRepo ''a'' = None" by (simp add: exRepo_def)
  from adopt_under_trunk[OF d p t h f, of "exDB []"] d p t h f show ?thesis by blast
qed

text \<open>
  Claim C4, amended. When the resolved parent is not a trunk branch and has no record,
  the adopt fails, creates and checks out nothing and leaves the store unchanged; the
  error is the parent-not-adopted one when the parent resolves to a commit, and the
  wrapped error of the failed resolution when it does not.
\<close>

theorem adopt_parent_without_record:
  assumes d: "DefaultBranch repo = Inr d"
    and p: "resolveParent repo d parent0 = Inr p"
    and t: "IsTrunkBranch repo p = Inr False"
    and u: "map_of (Branches db) p = None"
  shows "createBranch repo db branchName parent0 =
      (Some (case RevParse repo p of
               Inl err \<Rightarrow> Wrap err (''failed to determine head commit of branch '' @ quote [])
             | Inr parentHead \<Rightarrow> errParentNotAdopted),
       \<lparr>wRepo = repo, wDB = db, wTx = Some \<lparr>state = Branches db, status = Aborted\<rparr>\<rparr>)"
  using assms
  by (simp add: createBranch_def createBranchTx_def startingPoint_def deferred_abort
      Branch_def WriteTx_def Abort_def split: sum.splits)

theorem adopt_parent_without_record_witness:
  "DefaultBranch exRepoAB = Inr ''main'' \<and>
   resolveParent exRepoAB ''main'' [] = Inr ''a'' \<and>
   IsTrunkBranch exRepoAB ''a'' = Inr False \<and>
   map_of (Branches (exDB [])) ''a'' = None \<and>
   createBranch exRepoAB (exDB []) ''x'' [] =
     (Some errParentNotAdopted,
      \<lparr>wRepo = exRepoAB, wDB = exDB [],
       wTx = Some \<lparr>state = Branches (exDB []), status = Aborted\<rparr>\<rparr>)"
proof -
  have d: "DefaultBranch exRepoAB = Inr ''main''" by (simp add: exRepoAB_def exRepo_def)
  have p: "resolveParent exRepoAB ''main'' [] = Inr ''a''"
    by (simp add: resolveParent_def exRepoAB_def exRepo_def TrimPrefix_def)
  have t: "IsTrunkBranch exRepoAB ''a'' = Inr False" by (simp add: exRepoAB_def exRepo_def)
  have u: "map_of (Branches (exDB [])) ''a'' = None" by (simp add: exDB_def)
  have r: "RevParse exRepoAB ''a'' = Inr ''c2''" by (simp add: RevParse_def exRepoAB_def exRepo_def)
  from adopt_parent_without_record[OF d p t u, of "''x''"] d p t u r show ?thesis by simp
qed

text \<open>
  The claim as stated fails for a parent that is neither a branch of the repository nor
  a record: the head commit of the parent is resolved before the record is looked up.
\<close>

theorem adopt_unresolved_parent_counterexample:
  "DefaultBranch exRepo = Inr ''main'' \<and>
   resolveParent exRepo ''main'' ''ghost'' = Inr ''ghost'' \<and>
   IsTrunkBranch exRepo ''ghost'' = Inr False \<and>
   map_of (Branches (exDB [])) ''ghost'' = None \<and>
   fst (createBranch exRepo (exDB []) ''x'' ''ghost'') \<noteq> Some errParentNotAdopted"
  by (simp add: create_defs store_defs git_defs string_defs deferred_abort exRepo_def exDB_def)

section \<open>The writes staged by a rename\<close>

lemma keyed_lookup:
  assumes "keyed s"
  shows "(c \<in> set (map snd s) \<and> Name c = k) \<longleftrightarrow> map_of s k = Some c"
proof
  assume a: "c \<in> set (map snd s) \<and> Name c = k"
  then obtain k' where "(k', c) \<in> set s" by auto
  moreover from this assms have "Name c = k'" by (auto simp: keyed_def list_all_iff)
  ultimately show "map_of s k = Some c" using a assms by (simp add: keyed_def)
next
  assume "map_of s k = Some c"
  then have "(k, c) \<in> set s" by (rule map_of_SomeD)
  with assms show "c \<in> set (map snd s) \<and> Name c = k"
    by (force simp: keyed_def list_all_iff)
qed

lemma find_app:
  "find P (xs @ ys) = (case find P xs of None \<Rightarrow> find P ys | Some x \<Rightarrow> Some x)"
  by (induction xs) simp_all

lemma find_SomeD: "find P xs = Some x \<Longrightarrow> x \<in> set xs \<and> P x"
  by (induction xs) (auto split: if_splits)

lemma find_children:
  assumes "keyed s"
  shows "find (\<lambda>c. Name c = k) (rev (filter P (map snd s))) =
           (case map_of s k of None \<Rightarrow> None | Some b \<Rightarrow> if P b then Some b else None)"
proof (cases "find (\<lambda>c. Name c = k) (rev (filter P (map snd s)))")
  case None
  then have "\<forall>c \<in> set (map snd s). P c \<longrightarrow> Name c \<noteq> k" by (auto simp: find_None_iff)
  with keyed_lookup[OF assms] have "\<And>b. map_of s k = Some b \<Longrightarrow> \<not> P b" by blast
  with None show ?thesis by (auto split: option.splits)
next
  case (Some c)
  then have "c \<in> set (map snd s) \<and> P c \<and> Name c = k"
    by (auto dest: find_SomeD)
  then have "map_of s k = Some c" and "P c" using keyed_lookup[OF assms, of c k] by simp_all
  with Some show ?thesis by simp
qed

lemma fold_update:
  "map_of (fold (\<lambda>c. AList.update (Name c) (f c)) cs s) k =
     (case find (\<lambda>c. Name c = k) (rev cs) of None \<Rightarrow> map_of s k | Some c \<Rightarrow> Some (f c))"
proof (induction cs arbitrary: s)
  case Nil
  show ?case by simp
next
  case (Cons c cs)
  show ?case
    by (simp add: Cons.IH update_conv' find_app split: option.splits)
qed

lemma set_update_cases: "x \<in> set (AList.update k v s) \<Longrightarrow> x = (k, v) \<or> x \<in> set s"
  by (induction s) (auto split: if_splits)

lemma keyed_update: "keyed s \<Longrightarrow> Name b = k \<Longrightarrow> keyed (AList.update k b s)"
  unfolding keyed_def list_all_iff
  by (auto simp: distinct_update dest!: set_update_cases)

lemma keyed_delete: "keyed s \<Longrightarrow> keyed (AList.delete k s)"
proof -
  assume a: "keyed s"
  then have "distinct (map fst (AList.delete k s))" by (simp add: keyed_def distinct_delete)
  moreover have "set (AList.delete k s) \<subseteq> set s" by (auto simp: AList.delete_eq)
  ultimately show ?thesis using a unfolding keyed_def list_all_iff by blast
qed

lemma state_moveChildren:
  "state (moveChildren new cs tx) =
     fold (\<lambda>c. AList.update (Name c) (setParent new c)) cs (state tx)"
  unfolding moveChildren_def
  by (induction cs arbitrary: tx) (simp_all add: SetBranch_def setParent_def)

lemma keyed_fold:
  "keyed s \<Longrightarrow> keyed (fold (\<lambda>c. AList.update (Name c) (setParent new c)) cs s)"
  by (induction cs arbitrary: s) (simp_all add: keyed_update setParent_def)

lemma keyed_stageMove:
  "keyed (state tx) \<Longrightarrow> keyed (state (stageMove m old new tx))"
  by (simp add: stageMove_def Let_def DeleteBranch_def state_moveChildren keyed_delete
      keyed_fold keyed_update SetBranch_def)

lemma stageMove_lookup:
  assumes "keyed (state tx)"
  shows "map_of (state (stageMove m old new tx)) k =
     (if k = old then None
      else map_option (reparent old new)
             (((map_of (state tx))(new \<mapsto> m\<lparr>PullRequest := None, Name := new\<rparr>)) k))"
proof -
  let ?s1 = "AList.update new (m\<lparr>PullRequest := None, Name := new\<rparr>) (state tx)"
  have k1: "keyed ?s1" using assms by (simp add: keyed_update)
  have "state (stageMove m old new tx) =
      AList.delete old
        (fold (\<lambda>c. AList.update (Name c) (setParent new c))
           (filter (\<lambda>b. StName (Parent b) = old) (map snd ?s1)) ?s1)"
    by (simp add: stageMove_def Let_def DeleteBranch_def state_moveChildren SetBranch_def
        Children_def AllBranches_def)
  then show ?thesis
    by (simp add: delete_conv' fold_update find_children[OF k1] update_conv' reparent_def
        split: option.splits)
qed

lemma state_WriteTx: "state (WriteTx db) = Branches db"
  by (simp add: WriteTx_def)

lemma reparent_not_old: "old \<noteq> new \<Longrightarrow> StName (Parent (reparent old new x)) \<noteq> old"
  by (simp add: reparent_def setParent_def)

lemma branchMove_success:
  assumes "moveNames repo arg = Inr (old, new)"
    and "fst (branchMove repo db arg force) = None"
  shows "old \<noteq> new \<and> \<not> CommitFails db \<and>
     (\<exists>m. currentMeta repo (WriteTx db) old = Inr m \<and> (force \<or> PullRequest m = None) \<and>
        Branches (wDB (snd (branchMove repo db arg force))) =
          state (stageMove m old new (WriteTx db)) \<and>
        renameInGit repo old new = Inr (wRepo (snd (branchMove repo db arg force))))"
  using assms
  by (auto simp: branchMove_def branchMoveTx_def deferred_abort deferred_cancel Commit_def
      Let_def split: sum.splits if_splits)

lemma currentMeta_tracked:
  "map_of (Branches db) old = Some b \<Longrightarrow> currentMeta repo (WriteTx db) old = Inr b"
  by (simp add: currentMeta_def Branch_def WriteTx_def)

lemma currentMeta_untracked:
  "map_of (Branches db) old = None \<Longrightarrow> DefaultBranch repo = Inr d \<Longrightarrow>
   currentMeta repo (WriteTx db) old =
     Inr (zeroBranch\<lparr>Parent := \<lparr>StName = d, Trunk = True, Head = []\<rparr>\<rparr>)"
  by (simp add: currentMeta_def Branch_def WriteTx_def)

lemma keyed_exStack: "keyed (Branches (exDB exStack))"
  by (simp add: keyed_def exStack_def ex_defs)


lemma names_a2: "moveNames exRepoAB ''a2'' = Inr (''a'', ''a2'')"
  by (simp add: moveNames_def string_defs ex_defs)

lemma ok_a2: "fst (branchMove exRepoAB (exDB exStack) ''a2'' False) = None"
  by (simp add: move_defs store_defs git_defs string_defs deferred_cancel ex_defs exStack_def)

section \<open>Rename\<close>

text \<open>
  Claim C1, amended. After a successful rename of \<^verbatim>\<open>OLD\<close> to \<^verbatim>\<open>NEW\<close>, every record
  whose parent name was \<^verbatim>\<open>OLD\<close>, other than the record of \<^verbatim>\<open>OLD\<close> itself and a record
  that already had the name \<^verbatim>\<open>NEW\<close>, is stored with parent name \<^verbatim>\<open>NEW\<close> and is
  otherwise unchanged, and no record of the committed store has parent name \<^verbatim>\<open>OLD\<close>.
\<close>

theorem rename_propagates:
  assumes k: "keyed (Branches db)"
    and n: "moveNames repo arg = Inr (old, new)"
    and ok: "fst (branchMove repo db arg force) = None"
  shows "(\<forall>k c. map_of (Branches db) k = Some c \<longrightarrow> StName (Parent c) = old \<longrightarrow>
              k \<noteq> old \<longrightarrow> k \<noteq> new \<longrightarrow>
              map_of (Branches (wDB (snd (branchMove repo db arg force)))) k =
                Some (setParent new c)) \<and>
         (\<forall>c \<in> set (map snd (Branches (wDB (snd (branchMove repo db arg force))))).
              StName (Parent c) \<noteq> old)"
proof -
  from branchMove_success[OF n ok] obtain m where
    ne: "old \<noteq> new" and
    st: "Branches (wDB (snd (branchMove repo db arg force))) =
           state (stageMove m old new (WriteTx db))"
    by blast
  have kt: "keyed (state (WriteTx db))" using k by (simp add: WriteTx_def)
  note lk = stageMove_lookup[OF kt, of m old new]
  have 1: "map_of (Branches (wDB (snd (branchMove repo db arg force)))) k = Some (setParent new c)"
    if "map_of (Branches db) k = Some c" "StName (Parent c) = old" "k \<noteq> old" "k \<noteq> new" for k c
    using that by (simp add: st lk state_WriteTx reparent_def)
  have 2: "StName (Parent c) \<noteq> old"
    if c: "c \<in> set (map snd (Branches (wDB (snd (branchMove repo db arg force)))))" for c
  proof -
    have "keyed (state (stageMove m old new (WriteTx db)))" using kt by (rule keyed_stageMove)
    from keyed_lookup[OF this, of c "Name c"] c
    have "map_of (state (stageMove m old new (WriteTx db))) (Name c) = Some c" by (simp add: st)
    then have "\<exists>x. c = reparent old new x"
      unfolding lk by (cases "Name c = old") (auto simp: map_option_case split: option.splits)
    with ne show ?thesis by (auto simp: reparent_not_old)
  qed
  from 1 2 show ?thesis by blast
qed

theorem rename_propagates_witness:
  "keyed (Branches (exDB exStack)) \<and>
   moveNames exRepoAB ''a2'' = Inr (''a'', ''a2'') \<and>
   fst (branchMove exRepoAB (exDB exStack) ''a2'' False) = None \<and>
   map_of (Branches (exDB exStack)) ''b'' = Some (mkBranch ''b'' ''a'' False ''c2'') \<and>
   map_of (Branches (wDB (snd (branchMove exRepoAB (exDB exStack) ''a2'' False)))) ''b'' =
     Some (mkBranch ''b'' ''a2'' False ''c2'') \<and>
   \<not> (\<exists>c \<in> set (map snd (Branches (wDB (snd (branchMove exRepoAB (exDB exStack) ''a2''
                                                    False))))).
        StName (Parent c) = ''a'')"
proof -
  have b: "map_of (Branches (exDB exStack)) ''b'' = Some (mkBranch ''b'' ''a'' False ''c2'')"
    by (simp add: exStack_def ex_defs)
  have p: "StName (Parent (mkBranch ''b'' ''a'' False ''c2'')) = ''a''" by (simp add: ex_defs)
  have s: "setParent ''a2'' (mkBranch ''b'' ''a'' False ''c2'') = mkBranch ''b'' ''a2'' False ''c2''"
    by (simp add: setParent_def ex_defs)
  from rename_propagates[OF keyed_exStack names_a2 ok_a2] b p s keyed_exStack names_a2 ok_a2
  show ?thesis by auto
qed

text \<open>
  The claim as stated fails when the new name is the name of a child of the old branch:
  the renamed record replaces the child's record, and the record named \<^verbatim>\<open>b\<close>, whose
  parent was \<^verbatim>\<open>a\<close>, has the parent \<^verbatim>\<open>main\<close> after the rename of \<^verbatim>\<open>a\<close> to \<^verbatim>\<open>b\<close>.
\<close>

theorem rename_onto_child_counterexample:
  "keyed (Branches (exDB exStack)) \<and>
   moveNames exRepo ''a:b'' = Inr (''a'', ''b'') \<and>
   fst (branchMove exRepo (exDB exStack) ''a:b'' False) = None \<and>
   map_of (Branches (exDB exStack)) ''b'' = Some (mkBranch ''b'' ''a'' False ''c2'') \<and>
   Branches (wDB (snd (branchMove exRepo (exDB exStack) ''a:b'' False))) =
     [(''b'', mkBranch ''b'' ''main'' True [])]"
  by (simp add: move_defs store_defs git_defs string_defs deferred_cancel ex_defs exStack_def
      keyed_def)







section \<open>Keeping the forest\<close>

lemma rankedMap_bound: "rankedMap M r \<Longrightarrow> M k = Some b \<Longrightarrow> r k < card (dom M)"
  unfolding rankedMap_def by blast

lemma rankedMap_parent:
  "rankedMap M r \<Longrightarrow> M k = Some b \<Longrightarrow>
     (if M (StName (Parent b)) = None then Trunk (Parent b)
      else r (StName (Parent b)) < r k)"
  unfolding rankedMap_def by blast

lemma rankedMap_adopt:
  assumes rk: "rankedMap M r" and fin: "finite (dom M)" and n: "M n = None"
    and np0: "\<forall>k b. M k = Some b \<longrightarrow> StName (Parent b) \<noteq> n"
    and pn: "p \<noteq> n" and tp: "t \<or> M p \<noteq> None"
  shows "\<exists>r'. rankedMap
           (M(n \<mapsto> \<lparr>Name = n, Parent = \<lparr>StName = p, Trunk = t, Head = h\<rparr>, PullRequest = None\<rparr>))
           r'"
proof -
  have np: "\<And>k b. M k = Some b \<Longrightarrow> StName (Parent b) \<noteq> n" using np0 by blast
  let ?b = "\<lparr>Name = n, Parent = \<lparr>StName = p, Trunk = t, Head = h\<rparr>, PullRequest = None\<rparr>"
  let ?M = "M(n \<mapsto> ?b)"
  let ?r = "r(n := (if M p = None then 0 else Suc (r p)))"
  have card: "card (insert n (dom M)) = Suc (card (dom M))"
    using fin n by (simp add: domIff)
  have "rankedMap ?M ?r"
    unfolding rankedMap_def
  proof (intro allI impI)
    fix k b assume kb: "?M k = Some b"
    show "?r k < card (dom ?M) \<and>
          (if ?M (StName (Parent b)) = None then Trunk (Parent b)
           else ?r (StName (Parent b)) < ?r k)"
    proof (cases "k = n")
      case True
      with kb have b: "b = ?b" by simp
      show ?thesis
      proof (cases "M p")
        case None
        with True b pn tp show ?thesis by (simp add: card)
      next
        case (Some x)
        from rankedMap_bound[OF rk Some] True b pn Some show ?thesis by (simp add: card)
      qed
    next
      case False
      with kb have m: "M k = Some b" by simp
      from np[OF m] have q: "StName (Parent b) \<noteq> n" .
      from rankedMap_bound[OF rk m] rankedMap_parent[OF rk m] False q
      show ?thesis by (simp add: card)
    qed
  qed
  then show ?thesis by blast
qed

lemma rankedMap_rename_tracked:
  assumes rk: "rankedMap M r" and fin: "finite (dom M)"
    and ob: "M old = Some b" and nn: "M new = None"
    and np0: "\<forall>k c. M k = Some c \<longrightarrow> StName (Parent c) \<noteq> new"
  shows "\<exists>r'. rankedMap
           (\<lambda>k. if k = old then None
                else map_option (reparent old new)
                       ((M(new \<mapsto> b\<lparr>PullRequest := None, Name := new\<rparr>)) k))
           r'"
proof -
  have np: "\<And>k c. M k = Some c \<Longrightarrow> StName (Parent c) \<noteq> new" using np0 by blast
  let ?M = "\<lambda>k. if k = old then None
                else map_option (reparent old new)
                       ((M(new \<mapsto> b\<lparr>PullRequest := None, Name := new\<rparr>)) k)"
  let ?r = "r(new := r old)"
  from ob nn have ne: "old \<noteq> new" by auto
  have dom: "dom ?M = insert new (dom M - {old})"
    using ne by (auto simp: domIff split: if_splits)
  have "card (insert new (dom M - {old})) = Suc (card (dom M - {old}))"
    using fin nn by (simp add: domIff)
  also have "\<dots> = card (dom M)"
    using fin ob by (intro card_Suc_Diff1) (auto simp: domI)
  finally have card: "card (dom ?M) = card (dom M)" unfolding dom .
  from rankedMap_parent[OF rk ob] have bo: "StName (Parent b) \<noteq> old"
    using ob by auto
  have key: "?M q = None \<longleftrightarrow> M q = None \<or> q = old" if "q \<noteq> new" for q
    using that by auto
  have "rankedMap ?M ?r"
    unfolding rankedMap_def
  proof (intro allI impI)
    fix k c' assume kc: "?M k = Some c'"
    then have ko: "k \<noteq> old" by (auto split: if_splits)
    show "?r k < card (dom ?M) \<and>
          (if ?M (StName (Parent c')) = None then Trunk (Parent c')
           else ?r (StName (Parent c')) < ?r k)"
    proof (cases "k = new")
      case True
      with kc ko bo have c': "c' = b\<lparr>PullRequest := None, Name := new\<rparr>"
        by (simp add: reparent_def)
      from np[OF ob] have q: "StName (Parent b) \<noteq> new" .
      from rankedMap_bound[OF rk ob] rankedMap_parent[OF rk ob] True q bo ne
      show ?thesis unfolding card by (simp add: c' key)
    next
      case False
      with kc ko obtain c where m: "M k = Some c" and c': "c' = reparent old new c"
        by (auto split: if_splits)
      from np[OF m] have q: "StName (Parent c) \<noteq> new" .
      show ?thesis
      proof (cases "StName (Parent c) = old")
        case True
        from rankedMap_bound[OF rk m] rankedMap_parent[OF rk m] True ob False ne
        show ?thesis unfolding card
          by (simp add: c' reparent_def setParent_def)
      next
        case po: False
        from rankedMap_bound[OF rk m] rankedMap_parent[OF rk m] po False q
        show ?thesis unfolding card
          by (simp add: c' reparent_def key)
      qed
    qed
  qed
  then show ?thesis by blast
qed

lemma reachesTrunk_mono:
  "reachesTrunk f s k \<Longrightarrow> f \<le> f' \<Longrightarrow> reachesTrunk f' s k"
proof (induction f arbitrary: f' k)
  case 0
  then show ?case by simp
next
  case (Suc f)
  then obtain g where g: "f' = Suc g" "f \<le> g" by (cases f') auto
  from Suc.prems(1) show ?case unfolding g
    by (auto split: option.splits intro: Suc.IH[OF _ g(2)])
qed

lemma rankedMap_reaches:
  "rankedMap (map_of s) r \<Longrightarrow> map_of s k = Some b \<Longrightarrow> reachesTrunk (Suc (r k)) s k"
proof (induction "r k" arbitrary: k b rule: less_induct)
  case less
  note c = rankedMap_parent[OF less.prems]
  show ?case
  proof (cases "map_of s (StName (Parent b))")
    case None
    with c less.prems show ?thesis by simp
  next
    case (Some p)
    with c have lt: "r (StName (Parent b)) < r k" by simp
    from less.hyps[OF lt less.prems(1) Some]
    have "reachesTrunk (r k) s (StName (Parent b))"
      by (rule reachesTrunk_mono) (use lt in simp)
    with Some less.prems show ?thesis by simp
  qed
qed

lemma keyed_length: "keyed s \<Longrightarrow> card (dom (map_of s)) = length s"
proof -
  assume "keyed s"
  then have "distinct (map fst s)" by (simp add: keyed_def)
  from distinct_card[OF this] show ?thesis by (simp add: dom_map_of_conv_image_fst)
qed

lemma ranked_forest:
  assumes "rankedMap (map_of s) r" "keyed s"
  shows "forest s"
  unfolding forest_def list_all_iff
proof clarify
  fix k b assume "(k, b) \<in> set s"
  with assms(2) have m: "map_of s k = Some b" by (simp add: keyed_def)
  from rankedMap_reaches[OF assms(1) m] have "reachesTrunk (Suc (r k)) s k" .
  moreover from rankedMap_bound[OF assms(1) m] have "Suc (r k) \<le> length s"
    by (simp add: keyed_length[OF assms(2)])
  ultimately show "reachesTrunk (length s) s k" by (rule reachesTrunk_mono)
qed

lemma rankedMap_rename_untracked:
  assumes rk: "rankedMap M r" and fin: "finite (dom M)"
    and ou: "M old = None" and nn: "M new = None"
    and np0: "\<forall>k c. M k = Some c \<longrightarrow> StName (Parent c) \<noteq> new"
    and ne: "old \<noteq> new" and dd: "M d = None" and dold: "d \<noteq> old" and dnew: "d \<noteq> new"
    and pm: "Parent m = \<lparr>StName = d, Trunk = True, Head = h\<rparr>"
  shows "\<exists>r'. rankedMap
           (\<lambda>k. if k = old then None
                else map_option (reparent old new)
                       ((M(new \<mapsto> m\<lparr>PullRequest := None, Name := new\<rparr>)) k))
           r'"
proof -
  have np: "\<And>k c. M k = Some c \<Longrightarrow> StName (Parent c) \<noteq> new" using np0 by blast
  let ?M = "\<lambda>k. if k = old then None
                else map_option (reparent old new)
                       ((M(new \<mapsto> m\<lparr>PullRequest := None, Name := new\<rparr>)) k)"
  let ?r = "\<lambda>k. if k = new then 0 else Suc (r k)"
  have dom: "dom ?M = insert new (dom M)"
    using ne ou by (auto simp: domIff split: if_splits)
  have card: "card (dom ?M) = Suc (card (dom M))"
    unfolding dom using fin nn by (simp add: domIff)
  have key: "?M q = None \<longleftrightarrow> M q = None" if "q \<noteq> new" for q
    using that ou by auto
  have mn: "?M new \<noteq> None" using ne by simp
  have "rankedMap ?M ?r"
    unfolding rankedMap_def
  proof (intro allI impI)
    fix k c' assume kc: "?M k = Some c'"
    then have ko: "k \<noteq> old" by (auto split: if_splits)
    show "?r k < card (dom ?M) \<and>
          (if ?M (StName (Parent c')) = None then Trunk (Parent c')
           else ?r (StName (Parent c')) < ?r k)"
    proof (cases "k = new")
      case True
      with kc ko pm dold have c': "c' = m\<lparr>PullRequest := None, Name := new\<rparr>"
        by (simp add: reparent_def)
      from True dd dnew pm show ?thesis unfolding card by (simp add: c' key)
    next
      case False
      with kc ko obtain c where m: "M k = Some c" and c': "c' = reparent old new c"
        by (auto split: if_splits)
      from np[OF m] have q: "StName (Parent c) \<noteq> new" .
      show ?thesis
      proof (cases "StName (Parent c) = old")
        case True
        from rankedMap_bound[OF rk m] True False ne mn
        show ?thesis unfolding card
          by (simp add: c' reparent_def setParent_def)
      next
        case po: False
        from rankedMap_bound[OF rk m] rankedMap_parent[OF rk m] po False q
        show ?thesis unfolding card
          by (simp add: c' reparent_def key)
      qed
    qed
  qed
  then show ?thesis by blast
qed

lemma createBranch_success:
  assumes "createBranch repo db n parent0 = (None, w)"
  shows "\<exists>d p t h. DefaultBranch repo = Inr d \<and> resolveParent repo d parent0 = Inr p \<and>
           (t \<or> map_of (Branches db) p \<noteq> None) \<and>
           Branches (wDB w) =
             AList.update n \<lparr>Name = n, Parent = \<lparr>StName = p, Trunk = t, Head = h\<rparr>,
                              PullRequest = None\<rparr> (Branches db)"
proof (cases "DefaultBranch repo")
  case (Inl e)
  with assms show ?thesis by (simp add: createBranch_def)
next
  case d: (Inr d)
  show ?thesis
  proof (cases "resolveParent repo d parent0")
    case (Inl e)
    with assms d show ?thesis
      by (simp add: createBranch_def createBranchTx_def deferred_abort)
  next
    case p: (Inr p)
    show ?thesis
    proof (cases "IsTrunkBranch repo p")
      case (Inl e)
      with assms d p show ?thesis
        by (simp add: createBranch_def createBranchTx_def deferred_abort)
    next
      case t: (Inr t)
      show ?thesis
      proof (cases "startingPoint repo (WriteTx db) d p t")
        case (Inl e)
        with assms d p t show ?thesis
          by (simp add: createBranch_def createBranchTx_def deferred_abort)
      next
        case (Inr sp)
        obtain start h where sp: "sp = (start, h)" by (cases sp)
        from Inr sp have tp: "t \<or> map_of (Branches db) p \<noteq> None"
          by (auto simp: startingPoint_def Branch_def WriteTx_def
              split: if_splits sum.splits option.splits)
        from assms d p t Inr sp
        have "Branches (wDB w) =
             AList.update n \<lparr>Name = n, Parent = \<lparr>StName = p, Trunk = t, Head = h\<rparr>,
                              PullRequest = None\<rparr> (Branches db)"
          by (auto simp: createBranch_def createBranchTx_def deferred_abort deferred_cancel
              Commit_def SetBranch_def WriteTx_def Let_def split: sum.splits if_splits)
        with d p tp show ?thesis by blast
      qed
    qed
  qed
qed

lemma fresh_lookup: "fresh s n \<Longrightarrow> map_of s n = None"
  by (simp add: fresh_def map_of_eq_None_iff)

lemma fresh_parent: "fresh s n \<Longrightarrow> map_of s k = Some b \<Longrightarrow> StName (Parent b) \<noteq> n"
  by (force simp: fresh_def dest: map_of_SomeD)

lemma inv_adopt:
  assumes i: "inv (Branches db)"
    and g: "adoptGuard repo (Branches db) n parent0"
    and c: "createBranch repo db n parent0 = (None, w)"
  shows "inv (Branches (wDB w))"
proof -
  from createBranch_success[OF c] obtain d p t h where
    d: "DefaultBranch repo = Inr d" and p: "resolveParent repo d parent0 = Inr p" and
    tp: "t \<or> map_of (Branches db) p \<noteq> None" and
    s: "Branches (wDB w) =
          AList.update n \<lparr>Name = n, Parent = \<lparr>StName = p, Trunk = t, Head = h\<rparr>,
                           PullRequest = None\<rparr> (Branches db)"
    by blast
  from g d p have f: "fresh (Branches db) n" and pn: "p \<noteq> n"
    by (simp_all add: adoptGuard_def)
  from i obtain r where k: "keyed (Branches db)" and rk: "rankedMap (map_of (Branches db)) r"
    by (auto simp: inv_def)
  have np: "\<forall>k b. map_of (Branches db) k = Some b \<longrightarrow> StName (Parent b) \<noteq> n"
    using f by (blast dest: fresh_parent)
  have "\<exists>r'. rankedMap (map_of (Branches (wDB w))) r'"
    unfolding s update_conv'
    by (rule rankedMap_adopt[OF rk finite_dom_map_of fresh_lookup[OF f] np pn tp])
  moreover have "keyed (Branches (wDB w))" using k by (simp add: s keyed_update)
  ultimately show ?thesis by (simp add: inv_def)
qed

lemma inv_rename:
  assumes i: "inv (Branches db)"
    and n: "moveNames repo arg = Inr (old, new)"
    and g: "renameGuard repo (Branches db) old new"
    and c: "branchMove repo db arg force = (None, w)"
  shows "inv (Branches (wDB w))"
proof -
  from c have ok: "fst (branchMove repo db arg force) = None"
    and w: "snd (branchMove repo db arg force) = w" by simp_all
  from branchMove_success[OF n ok] obtain m where
    ne: "old \<noteq> new" and cm: "currentMeta repo (WriteTx db) old = Inr m" and
    st: "Branches (wDB w) = state (stageMove m old new (WriteTx db))"
    unfolding w by blast
  from i obtain r where k: "keyed (Branches db)" and rk: "rankedMap (map_of (Branches db)) r"
    by (auto simp: inv_def)
  from g have f: "fresh (Branches db) new" by (simp add: renameGuard_def)
  have kt: "keyed (state (WriteTx db))" using k by (simp add: state_WriteTx)
  have mp: "map_of (Branches (wDB w)) =
      (\<lambda>k. if k = old then None
           else map_option (reparent old new)
                  (((map_of (Branches db))(new \<mapsto> m\<lparr>PullRequest := None, Name := new\<rparr>)) k))"
    by (rule ext) (simp add: st stageMove_lookup[OF kt] state_WriteTx)
  have ks: "keyed (Branches (wDB w))" unfolding st using kt by (rule keyed_stageMove)
  have np: "\<forall>k b. map_of (Branches db) k = Some b \<longrightarrow> StName (Parent b) \<noteq> new"
    using f by (blast dest: fresh_parent)
  have "\<exists>r'. rankedMap (map_of (Branches (wDB w))) r'"
  proof (cases "map_of (Branches db) old")
    case (Some b)
    with cm have mb: "m = b" by (simp add: currentMeta_tracked)
    show ?thesis unfolding mp mb
      by (rule rankedMap_rename_tracked[OF rk finite_dom_map_of Some fresh_lookup[OF f] np])
  next
    case None
    with g obtain d where d: "DefaultBranch repo = Inr d" and dn: "map_of (Branches db) d = None"
      and dold: "d \<noteq> old" and dnew: "d \<noteq> new"
      by (auto simp: renameGuard_def split: sum.splits)
    from cm currentMeta_untracked[OF None d]
    have pm: "Parent m = \<lparr>StName = d, Trunk = True, Head = []\<rparr>" by auto
    show ?thesis unfolding mp
      by (rule rankedMap_rename_untracked[OF rk finite_dom_map_of None fresh_lookup[OF f]
            np ne dn dold dnew pm])
  qed
  with ks show ?thesis by (simp add: inv_def)
qed

lemma inv_empty: "inv []"
  by (simp add: inv_def keyed_def rankedMap_def)

lemma rankedMap_not_own_parent:
  "rankedMap M r \<Longrightarrow> M k = Some b \<Longrightarrow> StName (Parent b) \<noteq> k"
  by (auto dest: rankedMap_parent)

lemmas all_defs = move_defs create_defs store_defs git_defs string_defs ex_defs
  deferred_cancel deferred_abort

lemma step1: "fst exStep1 = None"
  "wDB (snd exStep1) = exDB [(''a'', mkBranch ''a'' ''main'' True [])]"
  "wRepo (snd exStep1) = exRepo\<lparr>CurrentBranchName := Inr ''a'',
      heads := (heads exRepo)(''a'' \<mapsto> ''c1'')\<rparr>"
  by (simp_all add: exStep1_def all_defs)

lemma step2: "fst exStep2 = None"
  "wDB (snd exStep2) = exDB [(''a'', mkBranch ''a'' ''main'' True []),
                             (''b'', mkBranch ''b'' ''a'' False ''c1'')]"
  "wRepo (snd exStep2) = exRepo\<lparr>CurrentBranchName := Inr ''b'',
      heads := (heads exRepo)(''a'' \<mapsto> ''c1'', ''b'' \<mapsto> ''c1'')\<rparr>"
  by (simp_all add: exStep2_def step1 all_defs)

lemma step3: "fst exStep3 = None"
  "wDB (snd exStep3) = exDB [(''b'', mkBranch ''b'' ''c'' False ''c1''),
                             (''c'', mkBranch ''c'' ''main'' True [])]"
  "CurrentBranchName (wRepo (snd exStep3)) = Inr ''c''"
  "map (heads (wRepo (snd exStep3))) [''a'', ''b'', ''c''] = [Some ''c1'', None, Some ''c1'']"
  by (simp_all add: exStep3_def step2 all_defs)

lemma step4: "fst exStep4 = None"
  "wDB (snd exStep4) = exDB [(''c'', mkBranch ''c'' ''c'' False ''c1'')]"
  by (simp_all add: exStep4_def step2 exStep3_def all_defs)

lemma reach1: "reachable (Branches (wDB (snd exStep1)))"
proof (rule reachable.adopt[of "exDB []" exRepo "''a''" "[]"])
  show "reachable (Branches (exDB []))" by (simp add: exDB_def reachable.empty)
  show "adoptGuard exRepo (Branches (exDB [])) ''a'' []"
    by (simp add: adoptGuard_def fresh_def resolveParent_def all_defs)
  show "createBranch exRepo (exDB []) ''a'' [] = (None, snd exStep1)"
    using step1(1) by (simp add: exStep1_def prod_eq_iff)
qed

lemma reach2: "reachable (Branches (wDB (snd exStep2)))"
proof (rule reachable.adopt[of "wDB (snd exStep1)" "wRepo (snd exStep1)" "''b''" "[]"])
  show "reachable (Branches (wDB (snd exStep1)))" by (rule reach1)
  show "adoptGuard (wRepo (snd exStep1)) (Branches (wDB (snd exStep1))) ''b'' []"
    by (simp add: step1 adoptGuard_def fresh_def resolveParent_def all_defs)
  show "createBranch (wRepo (snd exStep1)) (wDB (snd exStep1)) ''b'' [] = (None, snd exStep2)"
    using step2(1) by (simp add: exStep2_def prod_eq_iff)
qed

lemma reach3: "reachable (Branches (wDB (snd exStep3)))"
proof (rule reachable.rename[of "wDB (snd exStep2)" "wRepo (snd exStep2)" "''a:c''"
      "''a''" "''c''" False])
  show "reachable (Branches (wDB (snd exStep2)))" by (rule reach2)
  show "moveNames (wRepo (snd exStep2)) ''a:c'' = Inr (''a'', ''c'')"
    by (simp add: moveNames_def string_defs)
  show "renameGuard (wRepo (snd exStep2)) (Branches (wDB (snd exStep2))) ''a'' ''c''"
    by (simp add: step2 renameGuard_def fresh_def all_defs)
  show "branchMove (wRepo (snd exStep2)) (wDB (snd exStep2)) ''a:c'' False = (None, snd exStep3)"
    using step3(1) by (simp add: exStep3_def prod_eq_iff)
qed

text \<open>
  Claim C2, amended. In every store reached from the empty one by committing adopts of
  a fresh branch name other than the resolved parent, and renames to a fresh name (where,
  for an old branch with no record, the default branch has no record and is neither of
  the two names), the walk along the parent names from any record ends, within as many
  hops as there are records, at a parent that has no record and is flagged trunk; the
  records are keyed by their names and none is its own parent.
\<close>

theorem reachable_forest:
  assumes "reachable s"
  shows "keyed s \<and> forest s \<and> list_all (\<lambda>(k, b). StName (Parent b) \<noteq> k) s"
proof -
  from assms have "inv s"
    by (induction rule: reachable.induct) (auto intro: inv_empty inv_adopt inv_rename)
  then obtain r where k: "keyed s" and rk: "rankedMap (map_of s) r" by (auto simp: inv_def)
  have "StName (Parent b) \<noteq> n" if "(n, b) \<in> set s" for n b
  proof -
    from that k have "map_of s n = Some b" by (simp add: keyed_def)
    with rk show ?thesis by (rule rankedMap_not_own_parent)
  qed
  with k ranked_forest[OF rk k] show ?thesis by (auto simp: list_all_iff)
qed

theorem reachable_forest_witness:
  "reachable (Branches (wDB (snd exStep3))) \<and>
   Branches (wDB (snd exStep3)) =
     [(''b'', mkBranch ''b'' ''c'' False ''c1''), (''c'', mkBranch ''c'' ''main'' True [])] \<and>
   keyed (Branches (wDB (snd exStep3))) \<and> forest (Branches (wDB (snd exStep3))) \<and>
   list_all (\<lambda>(k, b). StName (Parent b) \<noteq> k) (Branches (wDB (snd exStep3)))"
  using reachable_forest[OF reach3] reach3 by (simp add: step3 exDB_def)

text \<open>
  The claim as stated fails for a rename whose new name has a record. After the first
  three operations \<^verbatim>\<open>b\<close> has a record and no branch in the repository (the rename of
  \<^verbatim>\<open>a\<close> renamed the branch checked out, \<^verbatim>\<open>b\<close>), so renaming \<^verbatim>\<open>b\<close> to \<^verbatim>\<open>c\<close> skips the
  repository and replaces the record of \<^verbatim>\<open>c\<close>, the parent of \<^verbatim>\<open>b\<close>, by the record of
  \<^verbatim>\<open>b\<close>: the one record left is its own parent.
\<close>

theorem rename_onto_record_counterexample:
  "fst exStep1 = None \<and> fst exStep2 = None \<and> fst exStep3 = None \<and> fst exStep4 = None \<and>
   Branches (wDB (snd exStep3)) =
     [(''b'', mkBranch ''b'' ''c'' False ''c1''), (''c'', mkBranch ''c'' ''main'' True [])] \<and>
   Branches (wDB (snd exStep4)) = [(''c'', mkBranch ''c'' ''c'' False ''c1'')] \<and>
   \<not> forest (Branches (wDB (snd exStep4)))"
  by (simp add: step1 step2 step3 step4 forest_def exDB_def mkBranch_def)

end
